theory Spec2Isabelle
  imports Main "HOL-Library.Char_ord" "HOL-Library.List_Lexorder"
begin

section \<open>Data model (main.go)\<close>

text \<open>
  The three status constants of main.go, lines 12 to 16. In the program a status is a
  plain Go string, so it is a \<open>string\<close> here as well: the type does not exclude
  other texts.
\<close>

definition ParcelStatusRegistered :: string where
  "ParcelStatusRegistered = ''registered''"

definition ParcelStatusSent :: string where
  "ParcelStatusSent = ''sent''"

definition ParcelStatusDelivered :: string where
  "ParcelStatusDelivered = ''delivered''"

text \<open>
  \<open>type Parcel struct\<close>, main.go lines 19 to 25. Go's \<open>int\<close> is modelled by
  \<open>int\<close>: the program does no arithmetic on these fields, and the conversion
  \<open>int(id)\<close> of parcel.go line 36 is the identity on the 64-bit targets the program
  is built for.
\<close>

record Parcel =
  Number :: int
  Client :: int
  Status :: string
  Address :: string
  CreatedAt :: string

text \<open>The zero value of the struct, what \<open>var p Parcel\<close> declares.\<close>

definition zero_Parcel :: Parcel where
  "zero_Parcel = \<lparr>Number = 0, Client = 0, Status = [], Address = [], CreatedAt = []\<rparr>"

text \<open>
  Go's \<open>error\<close> values that the store can hand back: \<open>sql.ErrNoRows\<close> (the
  NotFoundError of the specification) and any other failure the driver reports, kept
  with its message (the StorageError of the specification). A Go function returning
  \<open>(T, error)\<close> returns both components, so the model returns the pair
  \<open>T \<times> error option\<close>, with \<open>None\<close> for \<open>nil\<close>.
\<close>

datatype error = ErrNoRows | StorageError string

section \<open>The table behind the database handle\<close>

text \<open>
  The handle \<open>db *sql.DB\<close> gives access to one table, created in main.go lines 139
  to 147 as \<open>parcel (number INTEGER PRIMARY KEY, client INTEGER, status TEXT,
  address TEXT, created_at TEXT)\<close>. Its contents are the state of the model: the list of
  rows in storage order. A driver call can fail for reasons outside the program (disk,
  connection); each such call takes a parameter \<open>string option\<close> that says whether the
  call fails and with which message. A statement that fails changes nothing.
\<close>

type_synonym table = "Parcel list"

text \<open>
  The INSERT of \<open>Add\<close> gives no value for \<open>number\<close>. For an INTEGER PRIMARY KEY
  column the engine then takes 1 in an empty table and the largest number in the table
  plus one otherwise.
\<close>

definition next_rowid :: "table \<Rightarrow> int" where
  "next_rowid t = (if t = [] then 1 else Max (set (map Number t)) + 1)"

text \<open>
  \<open>INSERT INTO parcel (client, status, address, created_at) VALUES (?, ?, ?, ?)\<close>.
  The result on success stands for the \<open>sql.Result\<close>, which carries the number of the
  new row.
\<close>

definition exec_insert ::
  "string option \<Rightarrow> int \<Rightarrow> string \<Rightarrow> string \<Rightarrow> string \<Rightarrow> table \<Rightarrow> (error + int) \<times> table" where
  "exec_insert fault client status address created_at t =
     (case fault of
        Some msg \<Rightarrow> (Inl (StorageError msg), t)
      | None \<Rightarrow>
          (let n = next_rowid t in
           (Inr n, t @ [\<lparr>Number = n, Client = client, Status = status,
                          Address = address, CreatedAt = created_at\<rparr>])))"

text \<open>\<open>res.LastInsertId()\<close>.\<close>

definition LastInsertId :: "string option \<Rightarrow> int \<Rightarrow> error + int" where
  "LastInsertId fault res =
     (case fault of Some msg \<Rightarrow> Inl (StorageError msg) | None \<Rightarrow> Inr res)"

text \<open>
  \<open>SELECT number, client, status, address, created_at FROM parcel WHERE number = ?\<close>
  through \<open>QueryRow\<close> and \<open>Scan\<close>: the first matching row, \<open>sql.ErrNoRows\<close> when
  there is none. \<open>QueryRow\<close> defers every failure to \<open>Scan\<close>, so there is one
  point of failure.
\<close>

definition query_row_by_number :: "string option \<Rightarrow> int \<Rightarrow> table \<Rightarrow> error + Parcel" where
  "query_row_by_number fault number t =
     (case fault of
        Some msg \<Rightarrow> Inl (StorageError msg)
      | None \<Rightarrow>
          (case find (\<lambda>r. Number r = number) t of
             None \<Rightarrow> Inl ErrNoRows
           | Some r \<Rightarrow> Inr r))"

text \<open>
  \<open>SELECT number, client, status, address, created_at FROM parcel WHERE client = ?\<close>:
  the matching rows, which \<open>rows.Next\<close> then hands out one by one.
\<close>

definition query_by_client :: "string option \<Rightarrow> int \<Rightarrow> table \<Rightarrow> error + Parcel list" where
  "query_by_client fault client t =
     (case fault of
        Some msg \<Rightarrow> Inl (StorageError msg)
      | None \<Rightarrow> Inr (filter (\<lambda>r. Client r = client) t))"

text \<open>\<open>UPDATE parcel SET status = ? WHERE number = ?\<close>.\<close>

definition exec_update_status ::
  "string option \<Rightarrow> string \<Rightarrow> int \<Rightarrow> table \<Rightarrow> error option \<times> table" where
  "exec_update_status fault status number t =
     (case fault of
        Some msg \<Rightarrow> (Some (StorageError msg), t)
      | None \<Rightarrow> (None, map (\<lambda>r. if Number r = number then r\<lparr>Status := status\<rparr> else r) t))"

text \<open>\<open>UPDATE parcel SET address = ? WHERE number = ? AND status = ?\<close>.\<close>

definition exec_update_address ::
  "string option \<Rightarrow> string \<Rightarrow> int \<Rightarrow> string \<Rightarrow> table \<Rightarrow> error option \<times> table" where
  "exec_update_address fault address number status t =
     (case fault of
        Some msg \<Rightarrow> (Some (StorageError msg), t)
      | None \<Rightarrow>
          (None, map (\<lambda>r. if Number r = number \<and> Status r = status
                           then r\<lparr>Address := address\<rparr> else r) t))"

text \<open>\<open>DELETE FROM parcel WHERE number = ? AND status = ?\<close>.\<close>

definition exec_delete ::
  "string option \<Rightarrow> int \<Rightarrow> string \<Rightarrow> table \<Rightarrow> error option \<times> table" where
  "exec_delete fault number status t =
     (case fault of
        Some msg \<Rightarrow> (Some (StorageError msg), t)
      | None \<Rightarrow> (None, filter (\<lambda>r. \<not> (Number r = number \<and> Status r = status)) t))"

section \<open>ParcelStore (parcel.go)\<close>

text \<open>\<open>func (s ParcelStore) Add(p Parcel) (int, error)\<close>, parcel.go lines 19 to 37.\<close>

definition ParcelStore_Add ::
  "string option \<Rightarrow> string option \<Rightarrow> Parcel \<Rightarrow> table \<Rightarrow> (int \<times> error option) \<times> table" where
  "ParcelStore_Add exec_fault id_fault p t =
     (case exec_insert exec_fault (Client p) (Status p) (Address p) (CreatedAt p) t of
        (Inl err, t') \<Rightarrow> ((0, Some err), t')
      | (Inr res, t') \<Rightarrow>
          (case LastInsertId id_fault res of
             Inl err \<Rightarrow> ((0, Some err), t')
           | Inr id' \<Rightarrow> ((id', None), t')))"

text \<open>
  \<open>func (s ParcelStore) Get(number int) (Parcel, error)\<close>, parcel.go lines 40 to 56.
  On an error the Go code returns the parcel it declared, which \<open>Scan\<close> has not
  written.
\<close>

definition ParcelStore_Get :: "string option \<Rightarrow> int \<Rightarrow> table \<Rightarrow> Parcel \<times> error option" where
  "ParcelStore_Get fault number t =
     (case query_row_by_number fault number t of
        Inl err \<Rightarrow> (zero_Parcel, Some err)
      | Inr p \<Rightarrow> (p, None))"

text \<open>
  The loop \<open>for rows.Next() { ... parcels = append(parcels, p) }\<close> of
  \<open>GetByClient\<close>, parcel.go lines 72 to 79, over the rows still to come. A
  \<open>Scan\<close> that fails at a row ends the loop with the error (line 76); the second
  argument says at which row, counted from the current one, and with which message.
\<close>

fun scan_rows :: "Parcel list \<Rightarrow> (nat \<times> string) option \<Rightarrow> Parcel list \<Rightarrow> error + Parcel list" where
  "scan_rows [] scan_fault parcels = Inr parcels"
| "scan_rows (r # rs) scan_fault parcels =
     (case scan_fault of
        Some (0, msg) \<Rightarrow> Inl (StorageError msg)
      | Some (Suc k, msg) \<Rightarrow> scan_rows rs (Some (k, msg)) (parcels @ [r])
      | None \<Rightarrow> scan_rows rs None (parcels @ [r]))"

text \<open>
  \<open>func (s ParcelStore) GetByClient(client int) ([]Parcel, error)\<close>, parcel.go lines
  59 to 88. The three points of failure are the query (line 65), a \<open>Scan\<close> (line 75)
  and \<open>rows.Err()\<close> after the loop (line 82); each returns the nil slice, \<open>[]\<close>,
  with the error.
\<close>

definition ParcelStore_GetByClient ::
  "string option \<Rightarrow> (nat \<times> string) option \<Rightarrow> string option \<Rightarrow> int \<Rightarrow> table
     \<Rightarrow> Parcel list \<times> error option" where
  "ParcelStore_GetByClient query_fault scan_fault rows_fault client t =
     (case query_by_client query_fault client t of
        Inl err \<Rightarrow> ([], Some err)
      | Inr rows \<Rightarrow>
          (case scan_rows rows scan_fault [] of
             Inl err \<Rightarrow> ([], Some err)
           | Inr parcels \<Rightarrow>
               (case rows_fault of
                  Some msg \<Rightarrow> ([], Some (StorageError msg))
                | None \<Rightarrow> (parcels, None))))"

text \<open>\<open>func (s ParcelStore) SetStatus(number int, status string) error\<close>, lines 91 to 98.\<close>

definition ParcelStore_SetStatus ::
  "string option \<Rightarrow> int \<Rightarrow> string \<Rightarrow> table \<Rightarrow> error option \<times> table" where
  "ParcelStore_SetStatus fault number status t = exec_update_status fault status number t"

text \<open>\<open>func (s ParcelStore) SetAddress(number int, address string) error\<close>, lines 101 to 108.\<close>

definition ParcelStore_SetAddress ::
  "string option \<Rightarrow> int \<Rightarrow> string \<Rightarrow> table \<Rightarrow> error option \<times> table" where
  "ParcelStore_SetAddress fault number address t =
     exec_update_address fault address number ParcelStatusRegistered t"

text \<open>\<open>func (s ParcelStore) Delete(number int) error\<close>, lines 111 to 118.\<close>

definition ParcelStore_Delete :: "string option \<Rightarrow> int \<Rightarrow> table \<Rightarrow> error option \<times> table" where
  "ParcelStore_Delete fault number t = exec_delete fault number ParcelStatusRegistered t"

section \<open>Tables that the store builds\<close>

text \<open>
  The primary key makes the numbers of the rows pairwise different. A table that starts
  empty and receives rows only through \<open>Add\<close> has positive numbers only.
\<close>

definition store_inv :: "table \<Rightarrow> bool" where
  "store_inv t \<longleftrightarrow> distinct (map Number t) \<and> list_all (\<lambda>r. 0 < Number r) t"

section \<open>The clock\<close>

text \<open>
  \<open>Register\<close> stamps a parcel with \<open>time.Now().UTC().Format(time.RFC3339)\<close>. The
  reading of the clock is an input of the model: the calendar fields of the current time
  in UTC. The layout \<open>time.RFC3339\<close> is \<open>2006-01-02T15:04:05Z07:00\<close>: the year with
  at least four digits, every other field with two, and the zone \<open>Z\<close> for UTC.
\<close>

record utc_time =
  year :: nat
  month :: nat
  day :: nat
  hour :: nat
  minute :: nat
  second :: nat

definition digit_char :: "nat \<Rightarrow> char" where
  "digit_char d = char_of (48 + d)"

function decimal :: "nat \<Rightarrow> string" where
  "decimal n = (if n < 10 then [digit_char n] else decimal (n div 10) @ [digit_char (n mod 10)])"
  by pat_completeness auto
termination
  by (relation "measure (\<lambda>n. n)") auto

declare decimal.simps [simp del]

text \<open>The decimal digits of a number, padded with zeros on the left to a width.\<close>

definition appendInt :: "nat \<Rightarrow> nat \<Rightarrow> string" where
  "appendInt x width = replicate (width - length (decimal x)) (CHR ''0'') @ decimal x"

definition Format_RFC3339 :: "utc_time \<Rightarrow> string" where
  "Format_RFC3339 t =
     appendInt (year t) 4 @ ''-'' @ appendInt (month t) 2 @ ''-'' @ appendInt (day t) 2 @ ''T'' @
     appendInt (hour t) 2 @ '':'' @ appendInt (minute t) 2 @ '':'' @ appendInt (second t) 2 @ ''Z''"

text \<open>
  A reading of the clock in the years 0 to 9999, and the order of two readings in time.
\<close>

definition clock_reading :: "utc_time \<Rightarrow> bool" where
  "clock_reading t \<longleftrightarrow>
     year t < 10000 \<and> 1 \<le> month t \<and> month t \<le> 12 \<and> 1 \<le> day t \<and> day t \<le> 31 \<and>
     hour t < 24 \<and> minute t < 60 \<and> second t < 60"

definition earlier :: "utc_time \<Rightarrow> utc_time \<Rightarrow> bool" where
  "earlier a b \<longleftrightarrow>
     (if year a \<noteq> year b then year a < year b
      else if month a \<noteq> month b then month a < month b
      else if day a \<noteq> day b then day a < day b
      else if hour a \<noteq> hour b then hour a < hour b
      else if minute a \<noteq> minute b then minute a < minute b
      else second a < second b)"

section \<open>ParcelService (main.go)\<close>

text \<open>
  What the service prints with \<open>fmt.Printf\<close> goes to the console and is not part of
  the state; the model leaves it out.

  \<open>func (s ParcelService) Register(client int, address string) (Parcel, error)\<close>,
  main.go lines 38 to 62. The struct literal sets no \<open>Number\<close>, which is then 0.
\<close>

definition ParcelService_Register ::
  "utc_time \<Rightarrow> string option \<Rightarrow> string option \<Rightarrow> int \<Rightarrow> string \<Rightarrow> table
     \<Rightarrow> (Parcel \<times> error option) \<times> table" where
  "ParcelService_Register now exec_fault id_fault client address t =
     (let parcel = \<lparr>Number = 0, Client = client, Status = ParcelStatusRegistered,
                     Address = address, CreatedAt = Format_RFC3339 now\<rparr>
      in case ParcelStore_Add exec_fault id_fault parcel t of
           ((id', Some err), t') \<Rightarrow> ((parcel, Some err), t')
         | ((id', None), t') \<Rightarrow> ((parcel\<lparr>Number := id'\<rparr>, None), t'))"

text \<open>
  \<open>func (s ParcelService) NextStatus(number int) error\<close>, main.go lines 85 to 108.
  \<open>nextStatus\<close> is declared without a value, so it is the empty string unless a case
  of the switch assigns it; the switch has three cases and no default, and its third
  case returns at once.
\<close>

definition ParcelService_NextStatus ::
  "string option \<Rightarrow> string option \<Rightarrow> int \<Rightarrow> table \<Rightarrow> error option \<times> table" where
  "ParcelService_NextStatus get_fault set_fault number t =
     (case ParcelStore_Get get_fault number t of
        (parcel, Some err) \<Rightarrow> (Some err, t)
      | (parcel, None) \<Rightarrow>
          (if Status parcel = ParcelStatusRegistered
             then ParcelStore_SetStatus set_fault number ParcelStatusSent t
           else if Status parcel = ParcelStatusSent
             then ParcelStore_SetStatus set_fault number ParcelStatusDelivered t
           else if Status parcel = ParcelStatusDelivered
             then (None, t)
           else ParcelStore_SetStatus set_fault number [] t))"

text \<open>\<open>func (s ParcelService) ChangeAddress(number int, address string) error\<close>, lines 111 to 114.\<close>

definition ParcelService_ChangeAddress ::
  "string option \<Rightarrow> int \<Rightarrow> string \<Rightarrow> table \<Rightarrow> error option \<times> table" where
  "ParcelService_ChangeAddress fault number address t = ParcelStore_SetAddress fault number address t"

text \<open>\<open>func (s ParcelService) Delete(number int) error\<close>, main.go lines 117 to 120.\<close>

definition ParcelService_Delete :: "string option \<Rightarrow> int \<Rightarrow> table \<Rightarrow> error option \<times> table" where
  "ParcelService_Delete fault number t = ParcelStore_Delete fault number t"

section \<open>Sequences of service calls\<close>

text \<open>
  A caller of the service issues calls one after the other. A call is recorded with its
  arguments and with what the driver and the clock do during it; \<open>after_call\<close> is the
  table that the call leaves.
\<close>

datatype service_call =
    CallRegister utc_time "string option" "string option" int string
  | CallNextStatus "string option" "string option" int
  | CallChangeAddress "string option" int string
  | CallDelete "string option" int

fun after_call :: "service_call \<Rightarrow> table \<Rightarrow> table" where
  "after_call (CallRegister now exec_fault id_fault client address) t =
     snd (ParcelService_Register now exec_fault id_fault client address t)"
| "after_call (CallNextStatus get_fault set_fault number) t =
     snd (ParcelService_NextStatus get_fault set_fault number t)"
| "after_call (CallChangeAddress fault number address) t =
     snd (ParcelService_ChangeAddress fault number address t)"
| "after_call (CallDelete fault number) t =
     snd (ParcelService_Delete fault number t)"

fun after_calls :: "service_call list \<Rightarrow> table \<Rightarrow> table" where
  "after_calls [] t = t"
| "after_calls (c # cs) t = after_calls cs (after_call c t)"

text \<open>The statuses of the chain, and one step along it.\<close>

definition status_known :: "string \<Rightarrow> bool" where
  "status_known st \<longleftrightarrow>
     st = ParcelStatusRegistered \<or> st = ParcelStatusSent \<or> st = ParcelStatusDelivered"

definition advances :: "string \<Rightarrow> string \<Rightarrow> bool" where
  "advances a b \<longleftrightarrow>
     (a = ParcelStatusRegistered \<and> b = ParcelStatusSent) \<or>
     (a = ParcelStatusSent \<and> b = ParcelStatusDelivered)"

text \<open>
  A table \<open>t'\<close> follows a table \<open>t\<close> along the chain when every row of \<open>t'\<close> either
  has the status it had in \<open>t\<close>, or has moved one step along the chain, or is new and
  registered.
\<close>

definition chain_step :: "table \<Rightarrow> table \<Rightarrow> bool" where
  "chain_step t t' \<longleftrightarrow>
     list_all (\<lambda>r'. case find (\<lambda>r. Number r = Number r') t of
                      None \<Rightarrow> Status r' = ParcelStatusRegistered
                    | Some r \<Rightarrow> Status r' = Status r \<or> advances (Status r) (Status r')) t'"

definition statuses_known :: "table \<Rightarrow> bool" where
  "statuses_known t \<longleftrightarrow> list_all (\<lambda>r. status_known (Status r)) t"

section \<open>Auxiliary definitions\<close>

text \<open>Two decimal digits, the shape of every field of a time stamp but the year.\<close>

definition two_digits :: "nat \<Rightarrow> string" where
  "two_digits x = [digit_char (x div 10), digit_char (x mod 10)]"

text \<open>Sample rows, a sample table and a sample reading of the clock.\<close>

definition sample_sent :: Parcel where
  "sample_sent = \<lparr>Number = 1, Client = 7, Status = ''sent'', Address = ''A'',
                    CreatedAt = ''2024-01-01T00:00:00Z''\<rparr>"

definition sample_registered :: Parcel where
  "sample_registered = \<lparr>Number = 2, Client = 7, Status = ''registered'', Address = ''B'',
                          CreatedAt = ''2024-01-02T00:00:00Z''\<rparr>"

definition sample_delivered :: Parcel where
  "sample_delivered = \<lparr>Number = 3, Client = 8, Status = ''delivered'', Address = ''C'',
                         CreatedAt = ''2024-01-03T00:00:00Z''\<rparr>"

definition sample_lost :: Parcel where
  "sample_lost = \<lparr>Number = 4, Client = 8, Status = ''lost'', Address = ''D'',
                    CreatedAt = ''2024-01-04T00:00:00Z''\<rparr>"

definition sample_table :: table where
  "sample_table = [sample_sent, sample_registered, sample_delivered]"

definition sample_clock :: utc_time where
  "sample_clock = \<lparr>year = 2024, month = 1, day = 2, hour = 3, minute = 4, second = 5\<rparr>"

section \<open>Facts about the table\<close>

lemma next_rowid_above: "r \<in> set t \<Longrightarrow> Number r < next_rowid t"
proof -
  assume r: "r \<in> set t"
  then have ne: "t \<noteq> []" by auto
  have "Number r \<in> set (map Number t)" using r by simp
  then have "Number r \<le> Max (set (map Number t))" by (intro Max_ge) auto
  then show ?thesis using ne by (simp add: next_rowid_def)
qed

lemma next_rowid_fresh: "next_rowid t \<notin> Number ` set t"
  using next_rowid_above by fastforce

lemma next_rowid_positive: "store_inv t \<Longrightarrow> 0 < next_rowid t"
proof (cases t)
  case Nil
  then show ?thesis by (simp add: next_rowid_def)
next
  case (Cons r rs)
  assume "store_inv t"
  then have "0 < Number r" using Cons by (simp add: store_inv_def)
  moreover have "Number r < next_rowid t" using Cons by (intro next_rowid_above) simp
  ultimately show ?thesis by simp
qed

lemma find_append_fresh:
  "\<forall>r \<in> set t. \<not> P r \<Longrightarrow> P x \<Longrightarrow> find P (t @ [x]) = Some x"
  by (induction t) auto

lemma find_map_preserved:
  "(\<And>r. P (f r) = P r) \<Longrightarrow> find P (map f t) = map_option f (find P t)"
  by (induction t) auto

lemma find_filter_conj: "find P (filter Q t) = find (\<lambda>r. P r \<and> Q r) t"
  by (induction t) auto

lemma find_number_distinct:
  "distinct (map Number t) \<Longrightarrow> find (\<lambda>r. Number r = n) t = Some r \<Longrightarrow>
   find (\<lambda>x. Number x = n \<and> Q x) t = (if Q r then Some r else None)"
proof (induction t)
  case Nil
  then show ?case by simp
next
  case (Cons a t)
  show ?case
  proof (cases "Number a = n")
    case True
    then have ar: "a = r" using Cons.prems(2) by simp
    have "n \<notin> Number ` set t" using Cons.prems(1) True by simp
    then have "\<forall>x \<in> set t. Number x \<noteq> n" by blast
    then have "find (\<lambda>x. Number x = n \<and> Q x) t = None" by (auto simp: find_None_iff)
    then show ?thesis using True ar by simp
  next
    case False
    then show ?thesis using Cons by simp
  qed
qed

lemma find_other_number:
  "m \<noteq> n \<Longrightarrow> find (\<lambda>r. Number r = m \<and> \<not> (Number r = n \<and> Q r)) t = find (\<lambda>r. Number r = m) t"
  by (induction t) auto

lemma get_found:
  "ParcelStore_Get None n t = (r, None) \<longleftrightarrow> find (\<lambda>x. Number x = n) t = Some r"
  by (auto simp: ParcelStore_Get_def query_row_by_number_def split: option.splits)

lemma get_missing:
  "ParcelStore_Get None n t = (zero_Parcel, Some ErrNoRows) \<longleftrightarrow> find (\<lambda>x. Number x = n) t = None"
  by (auto simp: ParcelStore_Get_def query_row_by_number_def split: option.splits)

lemma find_SomeD: "find P t = Some r \<Longrightarrow> r \<in> set t \<and> P r"
  by (induction t) (auto split: if_splits)

lemma filter_unchanged: "\<forall>r \<in> set t. Q r \<Longrightarrow> filter Q t = t"
  by (induction t) auto

lemma map_unchanged: "\<forall>r \<in> set t. f r = r \<Longrightarrow> map f t = t"
  by (induction t) auto

lemma number_determines_row:
  "distinct (map Number t) \<Longrightarrow> r \<in> set t \<Longrightarrow> x \<in> set t \<Longrightarrow> Number x = Number r \<Longrightarrow> x = r"
  by (auto simp: distinct_map dest: inj_onD)




lemma get_after_set_status:
  assumes "ParcelStore_Get None n t = (r, None)"
  shows "ParcelStore_SetStatus None n st t =
           (None, map (\<lambda>x. if Number x = n then x\<lparr>Status := st\<rparr> else x) t) \<and>
         ParcelStore_Get None n (map (\<lambda>x. if Number x = n then x\<lparr>Status := st\<rparr> else x) t) =
           (r\<lparr>Status := st\<rparr>, None)"
proof -
  let ?f = "\<lambda>x. if Number x = n then x\<lparr>Status := st\<rparr> else x"
  from assms have f: "find (\<lambda>x. Number x = n) t = Some r" by (simp add: get_found)
  then have "Number r = n" using find_SomeD by fastforce
  moreover have "find (\<lambda>x. Number x = n) (map ?f t) = map_option ?f (find (\<lambda>x. Number x = n) t)"
    by (rule find_map_preserved) simp
  ultimately have "find (\<lambda>x. Number x = n) (map ?f t) = Some (r\<lparr>Status := st\<rparr>)"
    using f by simp
  then show ?thesis
    by (simp add: get_found ParcelStore_SetStatus_def exec_update_status_def)
qed



lemma scan_rows_all: "scan_rows rows None parcels = Inr (parcels @ rows)"
  by (induction rows arbitrary: parcels) auto



section \<open>The chain of statuses\<close>


lemma find_own_number:
  "distinct (map Number t) \<Longrightarrow> r \<in> set t \<Longrightarrow> find (\<lambda>x. Number x = Number r) t = Some r"
proof (induction t)
  case Nil
  then show ?case by simp
next
  case (Cons a t)
  show ?case
  proof (cases "Number a = Number r")
    case True
    have "a \<in> set (a # t)" by simp
    then have "a = r"
      using number_determines_row [OF Cons.prems(1) Cons.prems(2)] True by blast
    then show ?thesis by simp
  next
    case False
    then have "r \<in> set t" using Cons.prems(2) by auto
    then show ?thesis using Cons False by simp
  qed
qed

lemma chain_step_iff:
  "chain_step t t' \<longleftrightarrow>
     (\<forall>r' \<in> set t'. case find (\<lambda>r. Number r = Number r') t of
                        None \<Rightarrow> Status r' = ParcelStatusRegistered
                      | Some r \<Rightarrow> Status r' = Status r \<or> advances (Status r) (Status r'))"
  by (simp add: chain_step_def list_all_iff)

lemma chain_step_subset:
  assumes "distinct (map Number t)" and "set t' \<subseteq> set t"
  shows "chain_step t t'"
  unfolding chain_step_iff
proof
  fix r' assume "r' \<in> set t'"
  then have "r' \<in> set t" using assms(2) by blast
  then have "find (\<lambda>r. Number r = Number r') t = Some r'"
    using assms(1) by (intro find_own_number)
  then show "case find (\<lambda>r. Number r = Number r') t of
               None \<Rightarrow> Status r' = ParcelStatusRegistered
             | Some r \<Rightarrow> Status r' = Status r \<or> advances (Status r) (Status r')"
    by simp
qed

lemma chain_step_map:
  assumes "distinct (map Number t)"
    and "\<And>r. r \<in> set t \<Longrightarrow> Number (f r) = Number r"
    and "\<And>r. r \<in> set t \<Longrightarrow> Status (f r) = Status r \<or> advances (Status r) (Status (f r))"
  shows "chain_step t (map f t)"
  unfolding chain_step_iff
proof
  fix r' assume "r' \<in> set (map f t)"
  then obtain r where r: "r \<in> set t" "r' = f r" by auto
  then have "find (\<lambda>x. Number x = Number r') t = Some r"
    using assms(1,2) find_own_number by simp
  then show "case find (\<lambda>r. Number r = Number r') t of
               None \<Rightarrow> Status r' = ParcelStatusRegistered
             | Some r \<Rightarrow> Status r' = Status r \<or> advances (Status r) (Status r')"
    using assms(3) r by simp
qed

lemma chain_step_append:
  assumes "distinct (map Number t)" and "Number x \<notin> Number ` set t"
    and "Status x = ParcelStatusRegistered"
  shows "chain_step t (t @ [x])"
proof -
  have "chain_step t t" using assms(1) by (intro chain_step_subset) simp_all
  moreover have "\<forall>r \<in> set t. Number r \<noteq> Number x" using assms(2) by (metis imageI)
  then have "find (\<lambda>r. Number r = Number x) t = None"
    by (auto simp: find_None_iff)
  ultimately show ?thesis using assms(3) by (simp add: chain_step_def)
qed

text \<open>The store operations keep the table well formed.\<close>

lemma store_inv_insert:
  "store_inv t \<Longrightarrow> store_inv (snd (exec_insert fault c st a ca t))"
proof (cases fault)
  case None
  assume inv: "store_inv t"
  have "next_rowid t \<notin> Number ` set t" by (rule next_rowid_fresh)
  moreover have "0 < next_rowid t" using inv by (rule next_rowid_positive)
  ultimately show ?thesis using inv None
    by (simp add: exec_insert_def store_inv_def Let_def)
next
  case (Some msg)
  assume "store_inv t"
  then show ?thesis using Some by (simp add: exec_insert_def)
qed

lemma store_inv_map:
  assumes "store_inv t" and "\<And>r. Number (f r) = Number r"
  shows "store_inv (map f t)"
proof -
  have "Number \<circ> f = Number" using assms(2) by (simp add: fun_eq_iff)
  then show ?thesis using assms by (simp add: store_inv_def list_all_iff)
qed

lemma store_inv_filter: "store_inv t \<Longrightarrow> store_inv (filter Q t)"
  by (simp add: store_inv_def list_all_iff distinct_map_filter)

lemma store_inv_Add: "store_inv t \<Longrightarrow> store_inv (snd (ParcelStore_Add ef idf p t))"
  using store_inv_insert [of t ef "Client p" "Status p" "Address p" "CreatedAt p"]
  by (auto simp: ParcelStore_Add_def split: prod.splits sum.splits)

lemma store_inv_SetStatus: "store_inv t \<Longrightarrow> store_inv (snd (ParcelStore_SetStatus f n st t))"
  by (cases f) (auto simp: ParcelStore_SetStatus_def exec_update_status_def intro: store_inv_map)

lemma store_inv_SetAddress: "store_inv t \<Longrightarrow> store_inv (snd (ParcelStore_SetAddress f n a t))"
  by (cases f) (auto simp: ParcelStore_SetAddress_def exec_update_address_def intro: store_inv_map)

lemma store_inv_Delete: "store_inv t \<Longrightarrow> store_inv (snd (ParcelStore_Delete f n t))"
  by (cases f) (auto simp: ParcelStore_Delete_def exec_delete_def intro: store_inv_filter)

lemma chain_step_refl: "store_inv t \<Longrightarrow> chain_step t t"
  by (intro chain_step_subset) (simp_all add: store_inv_def)

lemma chain_step_SetStatus:
  assumes "store_inv t" and "find (\<lambda>x. Number x = n) t = Some r"
    and "advances (Status r) st"
  shows "chain_step t (snd (ParcelStore_SetStatus fault n st t))"
proof (cases fault)
  case None
  let ?f = "\<lambda>x. if Number x = n then x\<lparr>Status := st\<rparr> else x"
  from assms(1) have d: "distinct (map Number t)" by (simp add: store_inv_def)
  from assms(2) have r: "r \<in> set t" "Number r = n" using find_SomeD by fastforce+
  have "chain_step t (map ?f t)"
  proof (rule chain_step_map [OF d])
    fix x assume x: "x \<in> set t"
    show "Number (?f x) = Number x" by simp
    show "Status (?f x) = Status x \<or> advances (Status x) (Status (?f x))"
    proof (cases "Number x = n")
      case True
      then have "x = r" using number_determines_row [OF d r(1) x] r(2) by simp
      then show ?thesis using assms(3) True by simp
    next
      case False
      then show ?thesis by simp
    qed
  qed
  then show ?thesis using None by (simp add: ParcelStore_SetStatus_def exec_update_status_def)
next
  case (Some msg)
  then show ?thesis using chain_step_refl [OF assms(1)]
    by (simp add: ParcelStore_SetStatus_def exec_update_status_def)
qed

lemma statuses_known_SetStatus:
  "statuses_known t \<Longrightarrow> status_known st \<Longrightarrow>
   statuses_known (snd (ParcelStore_SetStatus fault n st t))"
  by (cases fault)
    (auto simp: ParcelStore_SetStatus_def exec_update_status_def statuses_known_def list_all_iff)

lemma get_result:
  "ParcelStore_Get fault n t = (p, None) \<Longrightarrow> find (\<lambda>x. Number x = n) t = Some p"
  by (cases fault)
    (auto simp: ParcelStore_Get_def query_row_by_number_def split: option.splits)

lemma NextStatus_keeps:
  assumes "store_inv t" and "statuses_known t"
  shows "store_inv (snd (ParcelService_NextStatus gf sf n t)) \<and>
         statuses_known (snd (ParcelService_NextStatus gf sf n t)) \<and>
         chain_step t (snd (ParcelService_NextStatus gf sf n t))"
proof (cases "ParcelStore_Get gf n t")
  case (Pair p e)
  show ?thesis
  proof (cases e)
    case (Some err)
    then show ?thesis using Pair assms chain_step_refl
      by (simp add: ParcelService_NextStatus_def)
  next
    case None
    then have f: "find (\<lambda>x. Number x = n) t = Some p" using Pair get_result by simp
    then have "p \<in> set t" using find_SomeD by fastforce
    then have k: "status_known (Status p)"
      using assms(2) by (simp add: statuses_known_def list_all_iff)
    consider (reg) "Status p = ParcelStatusRegistered"
      | (sent) "Status p = ParcelStatusSent" "Status p \<noteq> ParcelStatusRegistered"
      | (dlv) "Status p = ParcelStatusDelivered" "Status p \<noteq> ParcelStatusRegistered"
          "Status p \<noteq> ParcelStatusSent"
      using k unfolding status_known_def by blast
    then show ?thesis
    proof cases
      case reg
      then have "advances (Status p) ParcelStatusSent" by (simp add: advances_def)
      then have "chain_step t (snd (ParcelStore_SetStatus sf n ParcelStatusSent t))"
        using assms(1) f by (intro chain_step_SetStatus)
      moreover have "statuses_known (snd (ParcelStore_SetStatus sf n ParcelStatusSent t))"
        using assms(2) by (intro statuses_known_SetStatus) (simp_all add: status_known_def)
      moreover have "store_inv (snd (ParcelStore_SetStatus sf n ParcelStatusSent t))"
        using assms(1) by (rule store_inv_SetStatus)
      ultimately show ?thesis using Pair None reg
        by (simp add: ParcelService_NextStatus_def)
    next
      case sent
      then have "advances (Status p) ParcelStatusDelivered" by (simp add: advances_def)
      then have "chain_step t (snd (ParcelStore_SetStatus sf n ParcelStatusDelivered t))"
        using assms(1) f by (intro chain_step_SetStatus)
      moreover have "statuses_known (snd (ParcelStore_SetStatus sf n ParcelStatusDelivered t))"
        using assms(2) by (intro statuses_known_SetStatus) (simp_all add: status_known_def)
      moreover have "store_inv (snd (ParcelStore_SetStatus sf n ParcelStatusDelivered t))"
        using assms(1) by (rule store_inv_SetStatus)
      ultimately show ?thesis using Pair None sent
        by (simp add: ParcelService_NextStatus_def)
    next
      case dlv
      then show ?thesis using Pair None assms chain_step_refl
        by (simp add: ParcelService_NextStatus_def)
    qed
  qed
qed

lemma Register_keeps:
  assumes "store_inv t" and "statuses_known t"
  shows "store_inv (snd (ParcelService_Register now ef idf c a t)) \<and>
         statuses_known (snd (ParcelService_Register now ef idf c a t)) \<and>
         chain_step t (snd (ParcelService_Register now ef idf c a t))"
proof -
  let ?p = "\<lparr>Number = 0, Client = c, Status = ParcelStatusRegistered, Address = a,
              CreatedAt = Format_RFC3339 now\<rparr>"
  let ?row = "\<lparr>Number = next_rowid t, Client = c, Status = ParcelStatusRegistered,
                Address = a, CreatedAt = Format_RFC3339 now\<rparr>"
  have snd_eq: "snd (ParcelService_Register now ef idf c a t) = snd (ParcelStore_Add ef idf ?p t)"
    by (simp add: ParcelService_Register_def Let_def split: prod.splits option.splits)
  have inv: "store_inv (snd (ParcelStore_Add ef idf ?p t))"
    using assms(1) by (rule store_inv_Add)
  have cases: "snd (ParcelStore_Add ef idf ?p t) = t \<or> snd (ParcelStore_Add ef idf ?p t) = t @ [?row]"
    by (cases ef; cases idf)
      (simp_all add: ParcelStore_Add_def exec_insert_def LastInsertId_def Let_def)
  from assms(1) have d: "distinct (map Number t)" by (simp add: store_inv_def)
  have "chain_step t (t @ [?row])"
    using d next_rowid_fresh by (intro chain_step_append) simp_all
  moreover have "statuses_known (t @ [?row])"
    using assms(2) by (simp add: statuses_known_def status_known_def)
  ultimately show ?thesis
    using cases inv assms chain_step_refl unfolding snd_eq by auto
qed

lemma ChangeAddress_keeps:
  assumes "store_inv t" and "statuses_known t"
  shows "store_inv (snd (ParcelService_ChangeAddress f n a t)) \<and>
         statuses_known (snd (ParcelService_ChangeAddress f n a t)) \<and>
         chain_step t (snd (ParcelService_ChangeAddress f n a t))"
proof (cases f)
  case None
  let ?g = "\<lambda>r. if Number r = n \<and> Status r = ParcelStatusRegistered then r\<lparr>Address := a\<rparr> else r"
  from assms(1) have d: "distinct (map Number t)" by (simp add: store_inv_def)
  have t': "snd (ParcelService_ChangeAddress f n a t) = map ?g t"
    using None
    by (simp add: ParcelService_ChangeAddress_def ParcelStore_SetAddress_def exec_update_address_def)
  have "chain_step t (map ?g t)" using d by (intro chain_step_map) simp_all
  moreover have "statuses_known (map ?g t)"
    using assms(2) by (auto simp: statuses_known_def list_all_iff)
  moreover have "store_inv (map ?g t)" using assms(1) by (intro store_inv_map) simp_all
  ultimately show ?thesis by (simp add: t')
next
  case (Some msg)
  then show ?thesis using assms chain_step_refl
    by (simp add: ParcelService_ChangeAddress_def ParcelStore_SetAddress_def exec_update_address_def)
qed

lemma Delete_keeps:
  assumes "store_inv t" and "statuses_known t"
  shows "store_inv (snd (ParcelService_Delete f n t)) \<and>
         statuses_known (snd (ParcelService_Delete f n t)) \<and>
         chain_step t (snd (ParcelService_Delete f n t))"
proof (cases f)
  case None
  let ?keep = "\<lambda>r. \<not> (Number r = n \<and> Status r = ParcelStatusRegistered)"
  from assms(1) have d: "distinct (map Number t)" by (simp add: store_inv_def)
  have t': "snd (ParcelService_Delete f n t) = filter ?keep t"
    using None by (simp add: ParcelService_Delete_def ParcelStore_Delete_def exec_delete_def)
  have "chain_step t (filter ?keep t)" using d by (intro chain_step_subset) simp_all
  moreover have "statuses_known (filter ?keep t)"
    using assms(2) by (simp add: statuses_known_def list_all_iff)
  moreover have "store_inv (filter ?keep t)" using assms(1) by (rule store_inv_filter)
  ultimately show ?thesis by (simp add: t')
next
  case (Some msg)
  then show ?thesis using assms chain_step_refl
    by (simp add: ParcelService_Delete_def ParcelStore_Delete_def exec_delete_def)
qed

lemma after_call_keeps:
  assumes "store_inv t" and "statuses_known t"
  shows "store_inv (after_call c t) \<and> statuses_known (after_call c t) \<and>
         chain_step t (after_call c t)"
proof (cases c)
  case (CallRegister now ef idf cl a)
  then show ?thesis using Register_keeps [OF assms] by simp
next
  case (CallNextStatus gf sf n)
  then show ?thesis using NextStatus_keeps [OF assms] by simp
next
  case (CallChangeAddress f n a)
  then show ?thesis using ChangeAddress_keeps [OF assms] by simp
next
  case (CallDelete f n)
  then show ?thesis using Delete_keeps [OF assms] by simp
qed

lemma after_calls_keep:
  "store_inv t \<Longrightarrow> statuses_known t \<Longrightarrow>
   store_inv (after_calls cs t) \<and> statuses_known (after_calls cs t)"
proof (induction cs arbitrary: t)
  case Nil
  then show ?case by simp
next
  case (Cons c cs)
  then show ?case using after_call_keeps [of t c] by simp
qed


section \<open>The layout of the time stamp\<close>

lemma digit_char_less: "a < 10 \<Longrightarrow> b < 10 \<Longrightarrow> digit_char a < digit_char b \<longleftrightarrow> a < b"
  by (simp add: digit_char_def less_char_def)

lemma digit_char_eq: "a < 10 \<Longrightarrow> b < 10 \<Longrightarrow> digit_char a = digit_char b \<longleftrightarrow> a = b"
proof
  assume "a < 10" "b < 10" "digit_char a = digit_char b"
  then have "of_char (digit_char a) = (of_char (digit_char b) :: nat)" by simp
  then show "a = b" using \<open>a < 10\<close> \<open>b < 10\<close> by (simp add: digit_char_def)
qed simp

lemma digit_char_0: "digit_char 0 = CHR ''0''"
  by (simp add: digit_char_def char_of_def bit_0)

lemma decimal_digit: "n < 10 \<Longrightarrow> decimal n = [digit_char n]"
  by (simp add: decimal.simps)

lemma decimal_more: "10 \<le> n \<Longrightarrow> decimal n = decimal (n div 10) @ [digit_char (n mod 10)]"
  by (subst decimal.simps) simp

lemma replicate_small:
  "replicate 3 c = [c, c, c]" "replicate 2 c = [c, c]"
  by (simp_all add: numeral_3_eq_3 numeral_2_eq_2)


lemma appendInt_2: "x < 100 \<Longrightarrow> appendInt x 2 = two_digits x"
proof (cases "x < 10")
  case True
  then show ?thesis by (simp add: appendInt_def decimal_digit two_digits_def digit_char_0)
next
  case False
  assume "x < 100"
  then have "decimal x = [digit_char (x div 10), digit_char (x mod 10)]"
    using False by (simp add: decimal_more decimal_digit)
  then show ?thesis by (simp add: appendInt_def two_digits_def)
qed

lemma hundreds:
  fixes x :: nat
  shows "x div 100 = x div 10 div 10" "x mod 100 mod 10 = x mod 10"
    "x mod 100 div 10 = x div 10 mod 10"
proof -
  show "x div 100 = x div 10 div 10" by (simp add: div_mult2_eq [symmetric])
  show "x mod 100 mod 10 = x mod 10" by (simp add: mod_mod_cancel)
  have "x mod (10 * 10) = 10 * (x div 10 mod 10) + x mod 10" by (rule mod_mult2_eq)
  then show "x mod 100 div 10 = x div 10 mod 10" by simp
qed

lemma two_pairs:
  "two_digits (x div 100) @ two_digits (x mod 100) =
     [digit_char (x div 10 div 10 div 10), digit_char (x div 10 div 10 mod 10),
      digit_char (x div 10 mod 10), digit_char (x mod 10)]"
  unfolding two_digits_def hundreds by simp

lemma appendInt_4: "x < 10000 \<Longrightarrow> appendInt x 4 = two_digits (x div 100) @ two_digits (x mod 100)"
proof -
  assume x: "x < 10000"
  define q1 where "q1 = x div 10"
  define q2 where "q2 = q1 div 10"
  define q3 where "q3 = q2 div 10"
  have q3: "q3 < 10"
    using x unfolding q3_def q2_def q1_def
    by (simp add: div_mult2_eq [symmetric] less_mult_imp_div_less)
  have goal: "two_digits (x div 100) @ two_digits (x mod 100) =
     [digit_char q3, digit_char (q2 mod 10), digit_char (q1 mod 10), digit_char (x mod 10)]"
    unfolding q3_def q2_def q1_def by (rule two_pairs)
  consider (one) "x < 10" | (two) "10 \<le> x" "q1 < 10" | (three) "10 \<le> x" "10 \<le> q1" "q2 < 10"
    | (four) "10 \<le> x" "10 \<le> q1" "10 \<le> q2"
    by linarith
  then show ?thesis
  proof cases
    case one
    then have "q1 = 0" "q2 = 0" "q3 = 0" by (simp_all add: q1_def q2_def q3_def)
    moreover have "decimal x = [digit_char x]" using one by (rule decimal_digit)
    ultimately show ?thesis unfolding goal using one
      by (simp add: appendInt_def digit_char_0 replicate_small)
  next
    case two
    then have "q2 = 0" "q3 = 0" by (simp_all add: q2_def q3_def)
    moreover have "decimal x = [digit_char q1, digit_char (x mod 10)]"
      using two by (simp add: decimal_more [of x] decimal_digit [of q1] flip: q1_def)
    ultimately show ?thesis unfolding goal using two
      by (simp add: appendInt_def digit_char_0 replicate_small)
  next
    case three
    then have "q3 = 0" by (simp add: q3_def)
    moreover have "decimal q1 = [digit_char q2, digit_char (q1 mod 10)]"
      using three by (simp add: decimal_more [of q1] decimal_digit [of q2] flip: q2_def)
    then have "decimal x = [digit_char q2, digit_char (q1 mod 10), digit_char (x mod 10)]"
      using three by (simp add: decimal_more [of x] flip: q1_def)
    ultimately show ?thesis unfolding goal using three
      by (simp add: appendInt_def digit_char_0)
  next
    case four
    have "decimal q2 = [digit_char q3, digit_char (q2 mod 10)]"
      using four q3 by (simp add: decimal_more [of q2] decimal_digit [of q3] flip: q3_def)
    then have "decimal q1 = [digit_char q3, digit_char (q2 mod 10), digit_char (q1 mod 10)]"
      using four by (simp add: decimal_more [of q1] flip: q2_def)
    then have "decimal x = [digit_char q3, digit_char (q2 mod 10), digit_char (q1 mod 10),
        digit_char (x mod 10)]"
      using four by (simp add: decimal_more [of x] flip: q1_def)
    then show ?thesis unfolding goal by (simp add: appendInt_def)
  qed
qed

lemma two_digits_less:
  fixes a a' c c' :: nat
  shows "c < 10 \<Longrightarrow> c' < 10 \<Longrightarrow>
         (a < a' \<or> (a = a' \<and> c < c')) \<longleftrightarrow> 10 * a + c < 10 * a' + c'"
  by linarith

lemma two_digits_eq:
  fixes a a' c c' :: nat
  shows "c < 10 \<Longrightarrow> c' < 10 \<Longrightarrow> (a = a' \<and> c = c') \<longleftrightarrow> 10 * a + c = 10 * a' + c'"
  by presburger

lemma two_less: "x < 100 \<Longrightarrow> y < 100 \<Longrightarrow> two_digits x < two_digits y \<longleftrightarrow> x < y"
proof -
  assume b: "x < 100" "y < 100"
  then have d: "x div 10 < 10" "y div 10 < 10" "x mod 10 < 10" "y mod 10 < 10" by simp_all
  have "two_digits x < two_digits y \<longleftrightarrow>
        x div 10 < y div 10 \<or> (x div 10 = y div 10 \<and> x mod 10 < y mod 10)"
    using d by (simp add: two_digits_def digit_char_less digit_char_eq)
  also have "\<dots> \<longleftrightarrow> 10 * (x div 10) + x mod 10 < 10 * (y div 10) + y mod 10"
    using d(3,4) by (rule two_digits_less)
  also have "\<dots> \<longleftrightarrow> x < y" by simp
  finally show ?thesis .
qed

lemma two_eq: "x < 100 \<Longrightarrow> y < 100 \<Longrightarrow> two_digits x = two_digits y \<longleftrightarrow> x = y"
proof -
  assume b: "x < 100" "y < 100"
  then have d: "x div 10 < 10" "y div 10 < 10" "x mod 10 < 10" "y mod 10 < 10" by simp_all
  have "two_digits x = two_digits y \<longleftrightarrow> x div 10 = y div 10 \<and> x mod 10 = y mod 10"
    using d by (simp add: two_digits_def digit_char_eq)
  also have "\<dots> \<longleftrightarrow> 10 * (x div 10) + x mod 10 = 10 * (y div 10) + y mod 10"
    using d(3,4) by (rule two_digits_eq)
  also have "\<dots> \<longleftrightarrow> x = y" by simp
  finally show ?thesis .
qed

lemma append_less_iff:
  fixes u u' v v' :: string
  shows "length u = length u' \<Longrightarrow> u @ v < u' @ v' \<longleftrightarrow> u < u' \<or> (u = u' \<and> v < v')"
  by (induction u u' rule: list_induct2) auto

lemma two_length: "length (two_digits x) = 2"
  by (simp add: two_digits_def)

lemma hundred_pairs_less:
  fixes a a' c c' :: nat
  shows "c < 100 \<Longrightarrow> c' < 100 \<Longrightarrow>
         (a < a' \<or> (a = a' \<and> c < c')) \<longleftrightarrow> 100 * a + c < 100 * a' + c'"
  by linarith

lemma four_less:
  assumes "x < 10000" and "y < 10000"
  shows "two_digits (x div 100) @ two_digits (x mod 100) @ v < two_digits (y div 100) @ two_digits (y mod 100) @ w \<longleftrightarrow>
         x < y \<or> (x = y \<and> v < w)"
proof -
  have d: "x div 100 < 100" "y div 100 < 100" "x mod 100 < 100" "y mod 100 < 100"
    using assms by simp_all
  have split: "x = y \<longleftrightarrow> x div 100 = y div 100 \<and> x mod 100 = y mod 100"
    by (metis div_mult_mod_eq)
  have "x < y \<longleftrightarrow> 100 * (x div 100) + x mod 100 < 100 * (y div 100) + y mod 100" by simp
  also have "\<dots> \<longleftrightarrow> x div 100 < y div 100 \<or> (x div 100 = y div 100 \<and> x mod 100 < y mod 100)"
    using d(3,4) by (rule hundred_pairs_less [symmetric])
  finally have less: "x < y \<longleftrightarrow>
      x div 100 < y div 100 \<or> (x div 100 = y div 100 \<and> x mod 100 < y mod 100)" .
  have "two_digits (x div 100) @ two_digits (x mod 100) @ v < two_digits (y div 100) @ two_digits (y mod 100) @ w \<longleftrightarrow>
        x div 100 < y div 100 \<or>
        (x div 100 = y div 100 \<and> (x mod 100 < y mod 100 \<or> (x mod 100 = y mod 100 \<and> v < w)))"
    using d by (simp add: append_less_iff two_length two_less two_eq)
  then show ?thesis unfolding less split by blast
qed

lemma field_less:
  assumes "x < 100" and "y < 100"
  shows "two_digits x @ v < two_digits y @ w \<longleftrightarrow> x < y \<or> (x = y \<and> v < w)"
  using assms by (simp add: append_less_iff two_length two_less two_eq)

lemma Format_clock:
  assumes "clock_reading t"
  shows "Format_RFC3339 t =
    two_digits (year t div 100) @ two_digits (year t mod 100) @
    CHR ''-'' # two_digits (month t) @ CHR ''-'' # two_digits (day t) @ CHR ''T'' # two_digits (hour t) @
    CHR '':'' # two_digits (minute t) @ CHR '':'' # two_digits (second t) @ ''Z''"
proof -
  have "year t < 10000" "month t < 100" "day t < 100" "hour t < 100" "minute t < 100"
    "second t < 100"
    using assms by (simp_all add: clock_reading_def)
  then show ?thesis by (simp add: Format_RFC3339_def appendInt_2 appendInt_4)
qed

lemma Format_RFC3339_length: "clock_reading t \<Longrightarrow> length (Format_RFC3339 t) = 20"
  by (simp add: Format_clock two_length)

lemma Format_RFC3339_sortable:
  assumes "clock_reading a" and "clock_reading b"
  shows "Format_RFC3339 a < Format_RFC3339 b \<longleftrightarrow> earlier a b"
proof -
  have a: "year a < 10000" "month a < 100" "day a < 100" "hour a < 100" "minute a < 100"
    "second a < 100"
    using assms(1) by (simp_all add: clock_reading_def)
  have b: "year b < 10000" "month b < 100" "day b < 100" "hour b < 100" "minute b < 100"
    "second b < 100"
    using assms(2) by (simp_all add: clock_reading_def)
  have "Format_RFC3339 a < Format_RFC3339 b \<longleftrightarrow>
        year a < year b \<or> (year a = year b \<and>
        (month a < month b \<or> (month a = month b \<and>
        (day a < day b \<or> (day a = day b \<and>
        (hour a < hour b \<or> (hour a = hour b \<and>
        (minute a < minute b \<or> (minute a = minute b \<and> second a < second b)))))))))"
    unfolding Format_clock [OF assms(1)] Format_clock [OF assms(2)] four_less [OF a(1) b(1)]
    using a b by (simp add: field_less)
  also have "\<dots> \<longleftrightarrow> earlier a b"
    unfolding earlier_def by (simp only: split: if_split) auto
  finally show ?thesis .
qed

section \<open>Claims\<close>

text \<open>
  C1. In a table that the store has built, \<open>Add\<close> of a parcel \<open>p\<close> succeeds with a
  number \<open>n\<close> that is not zero, and \<open>Get\<close> of \<open>n\<close> in the table after it returns,
  with no error, the parcel that has \<open>n\<close> as its number and the client, status, address
  and creation time of \<open>p\<close>.
\<close>

theorem add_get_roundtrip:
  assumes "store_inv t"
    and "ParcelStore_Add None None p t = ((n, err), t')"
  shows "err = None \<and> n \<noteq> 0 \<and>
         ParcelStore_Get None n t' =
           (\<lparr>Number = n, Client = Client p, Status = Status p, Address = Address p,
             CreatedAt = CreatedAt p\<rparr>, None)"
proof -
  let ?row = "\<lparr>Number = next_rowid t, Client = Client p, Status = Status p,
               Address = Address p, CreatedAt = CreatedAt p\<rparr>"
  from assms(2) have n: "n = next_rowid t" and e: "err = None" and t': "t' = t @ [?row]"
    by (auto simp: ParcelStore_Add_def exec_insert_def LastInsertId_def Let_def)
  have "\<forall>r \<in> set t. \<not> Number r = next_rowid t"
    using next_rowid_above by fastforce
  then have "find (\<lambda>r. Number r = next_rowid t) (t @ [?row]) = Some ?row"
    by (intro find_append_fresh) simp_all
  then have "ParcelStore_Get None n t' = (?row, None)"
    by (simp add: ParcelStore_Get_def query_row_by_number_def n t')
  moreover have "n \<noteq> 0" using next_rowid_positive [OF assms(1)] n by simp
  ultimately show ?thesis using e n by simp
qed


theorem add_get_roundtrip_witness:
  "store_inv [\<lparr>Number = 1, Client = 7, Status = ''sent'', Address = ''A'',
                CreatedAt = ''2024-01-01T00:00:00Z''\<rparr>] \<and>
   ParcelStore_Add None None
     \<lparr>Number = 0, Client = 8, Status = ''registered'', Address = ''B'',
       CreatedAt = ''2024-01-02T00:00:00Z''\<rparr>
     [\<lparr>Number = 1, Client = 7, Status = ''sent'', Address = ''A'',
        CreatedAt = ''2024-01-01T00:00:00Z''\<rparr>] =
     ((2, None),
      [\<lparr>Number = 1, Client = 7, Status = ''sent'', Address = ''A'',
         CreatedAt = ''2024-01-01T00:00:00Z''\<rparr>,
       \<lparr>Number = 2, Client = 8, Status = ''registered'', Address = ''B'',
         CreatedAt = ''2024-01-02T00:00:00Z''\<rparr>]) \<and>
   ParcelStore_Get None 2
     [\<lparr>Number = 1, Client = 7, Status = ''sent'', Address = ''A'',
        CreatedAt = ''2024-01-01T00:00:00Z''\<rparr>,
      \<lparr>Number = 2, Client = 8, Status = ''registered'', Address = ''B'',
        CreatedAt = ''2024-01-02T00:00:00Z''\<rparr>] =
     (\<lparr>Number = 2, Client = 8, Status = ''registered'', Address = ''B'',
        CreatedAt = ''2024-01-02T00:00:00Z''\<rparr>, None)"
proof -
  let ?t = "[\<lparr>Number = 1, Client = 7, Status = ''sent'', Address = ''A'',
               CreatedAt = ''2024-01-01T00:00:00Z''\<rparr>]"
  let ?p = "\<lparr>Number = 0, Client = 8, Status = ''registered'', Address = ''B'',
              CreatedAt = ''2024-01-02T00:00:00Z''\<rparr>"
  let ?t' = "?t @ [?p\<lparr>Number := 2\<rparr>]"
  have inv: "store_inv ?t" by (simp add: store_inv_def)
  have add: "ParcelStore_Add None None ?p ?t = ((2, None), ?t')"
    by (simp add: ParcelStore_Add_def exec_insert_def LastInsertId_def next_rowid_def)
  show ?thesis using inv add add_get_roundtrip [OF inv add] by simp
qed


text \<open>
  C2. For the stored row with a given number, \<open>Delete\<close> returns no error; when the
  status of the row is registered, the row, and no other, leaves the table and a
  following \<open>Get\<close> of the number fails with \<open>sql.ErrNoRows\<close>; when the status is
  anything else, sent and delivered among them, the table is left as it was.
\<close>

theorem delete_only_registered:
  assumes "store_inv t"
    and "ParcelStore_Get None n t = (r, None)"
    and "ParcelStore_Delete None n t = (err, t')"
  shows "err = None \<and>
         (Status r = ParcelStatusRegistered \<longrightarrow>
            set t' = set t - {r} \<and>
            ParcelStore_Get None n t' = (zero_Parcel, Some ErrNoRows)) \<and>
         (Status r \<noteq> ParcelStatusRegistered \<longrightarrow> t' = t)"
proof -
  let ?keep = "\<lambda>x. \<not> (Number x = n \<and> Status x = ParcelStatusRegistered)"
  from assms(3) have e: "err = None" and t': "t' = filter ?keep t"
    by (auto simp: ParcelStore_Delete_def exec_delete_def)
  from assms(1) have d: "distinct (map Number t)" by (simp add: store_inv_def)
  from assms(2) have f: "find (\<lambda>x. Number x = n) t = Some r" by (simp add: get_found)
  then have r: "r \<in> set t" "Number r = n" using find_SomeD by fastforce+
  have only: "x = r" if "x \<in> set t" "Number x = n" for x
    using d r(1) that(1) by (rule number_determines_row) (simp add: that(2) r(2))
  have gone: "find (\<lambda>x. Number x = n) t' = (if ?keep r then Some r else None)"
    unfolding t' find_filter_conj by (rule find_number_distinct [OF d f])
  have reg: "set t' = set t - {r} \<and> ParcelStore_Get None n t' = (zero_Parcel, Some ErrNoRows)"
    if "Status r = ParcelStatusRegistered"
  proof -
    have "x \<in> set t' \<longleftrightarrow> x \<in> set t \<and> x \<noteq> r" for x
    proof -
      have "x \<in> set t' \<longleftrightarrow> x \<in> set t \<and> ?keep x" by (simp add: t')
      moreover have "\<not> ?keep r" using that r(2) by simp
      moreover have "?keep x" if "x \<in> set t" "x \<noteq> r" using only that by blast
      ultimately show ?thesis by blast
    qed
    then have "set t' = set t - {r}" by blast
    moreover have "find (\<lambda>x. Number x = n) t' = None" using gone that r by simp
    ultimately show ?thesis by (simp add: get_missing)
  qed
  have other: "t' = t" if "Status r \<noteq> ParcelStatusRegistered"
  proof -
    have "\<forall>x \<in> set t. ?keep x" using only that by blast
    then show ?thesis unfolding t' by (rule filter_unchanged)
  qed
  show ?thesis using e reg other by blast
qed

theorem delete_only_registered_witness:
  "store_inv sample_table \<and>
   ParcelStore_Delete None 2 sample_table = (None, [sample_sent, sample_delivered]) \<and>
   ParcelStore_Get None 2 [sample_sent, sample_delivered] = (zero_Parcel, Some ErrNoRows) \<and>
   ParcelStore_Delete None 1 sample_table = (None, sample_table) \<and>
   ParcelStore_Delete None 3 sample_table = (None, sample_table)"
proof -
  have inv: "store_inv sample_table"
    by (simp add: sample_table_def sample_sent_def sample_registered_def sample_delivered_def sample_lost_def ParcelStore_Add_def exec_insert_def LastInsertId_def next_rowid_def ParcelStore_Get_def query_row_by_number_def ParcelStore_Delete_def exec_delete_def ParcelStore_SetAddress_def exec_update_address_def ParcelStore_SetStatus_def exec_update_status_def ParcelStatusRegistered_def ParcelStatusSent_def ParcelStatusDelivered_def zero_Parcel_def store_inv_def)
  have get2: "ParcelStore_Get None 2 sample_table = (sample_registered, None)"
    by (simp add: sample_table_def sample_sent_def sample_registered_def sample_delivered_def sample_lost_def ParcelStore_Add_def exec_insert_def LastInsertId_def next_rowid_def ParcelStore_Get_def query_row_by_number_def ParcelStore_Delete_def exec_delete_def ParcelStore_SetAddress_def exec_update_address_def ParcelStore_SetStatus_def exec_update_status_def ParcelStatusRegistered_def ParcelStatusSent_def ParcelStatusDelivered_def zero_Parcel_def store_inv_def)
  have del2: "ParcelStore_Delete None 2 sample_table = (None, [sample_sent, sample_delivered])"
    by (simp add: sample_table_def sample_sent_def sample_registered_def sample_delivered_def sample_lost_def ParcelStore_Add_def exec_insert_def LastInsertId_def next_rowid_def ParcelStore_Get_def query_row_by_number_def ParcelStore_Delete_def exec_delete_def ParcelStore_SetAddress_def exec_update_address_def ParcelStore_SetStatus_def exec_update_status_def ParcelStatusRegistered_def ParcelStatusSent_def ParcelStatusDelivered_def zero_Parcel_def store_inv_def)
  have get1: "ParcelStore_Get None 1 sample_table = (sample_sent, None)"
    by (simp add: sample_table_def sample_sent_def sample_registered_def sample_delivered_def sample_lost_def ParcelStore_Add_def exec_insert_def LastInsertId_def next_rowid_def ParcelStore_Get_def query_row_by_number_def ParcelStore_Delete_def exec_delete_def ParcelStore_SetAddress_def exec_update_address_def ParcelStore_SetStatus_def exec_update_status_def ParcelStatusRegistered_def ParcelStatusSent_def ParcelStatusDelivered_def zero_Parcel_def store_inv_def)
  have del1: "ParcelStore_Delete None 1 sample_table = (None, sample_table)"
    by (simp add: sample_table_def sample_sent_def sample_registered_def sample_delivered_def sample_lost_def ParcelStore_Add_def exec_insert_def LastInsertId_def next_rowid_def ParcelStore_Get_def query_row_by_number_def ParcelStore_Delete_def exec_delete_def ParcelStore_SetAddress_def exec_update_address_def ParcelStore_SetStatus_def exec_update_status_def ParcelStatusRegistered_def ParcelStatusSent_def ParcelStatusDelivered_def zero_Parcel_def store_inv_def)
  have get3: "ParcelStore_Get None 3 sample_table = (sample_delivered, None)"
    by (simp add: sample_table_def sample_sent_def sample_registered_def sample_delivered_def sample_lost_def ParcelStore_Add_def exec_insert_def LastInsertId_def next_rowid_def ParcelStore_Get_def query_row_by_number_def ParcelStore_Delete_def exec_delete_def ParcelStore_SetAddress_def exec_update_address_def ParcelStore_SetStatus_def exec_update_status_def ParcelStatusRegistered_def ParcelStatusSent_def ParcelStatusDelivered_def zero_Parcel_def store_inv_def)
  have del3: "ParcelStore_Delete None 3 sample_table = (None, sample_table)"
    by (simp add: sample_table_def sample_sent_def sample_registered_def sample_delivered_def sample_lost_def ParcelStore_Add_def exec_insert_def LastInsertId_def next_rowid_def ParcelStore_Get_def query_row_by_number_def ParcelStore_Delete_def exec_delete_def ParcelStore_SetAddress_def exec_update_address_def ParcelStore_SetStatus_def exec_update_status_def ParcelStatusRegistered_def ParcelStatusSent_def ParcelStatusDelivered_def zero_Parcel_def store_inv_def)
  have "ParcelStore_Get None 2 [sample_sent, sample_delivered] = (zero_Parcel, Some ErrNoRows)"
    using delete_only_registered [OF inv get2 del2]
    by (simp add: sample_registered_def ParcelStatusRegistered_def)
  then show ?thesis using inv del2 del1 del3 by simp
qed

text \<open>
  C3. \<open>SetAddress\<close> returns no error and keeps the number and the order of the rows;
  a row with the given number and the status registered gets the new address and keeps
  its other fields, and every other row stays as it was. When no row has both the number
  and the status registered, as when the row is sent or delivered, the table is left as
  it was.
\<close>

theorem set_address_guarded:
  assumes "ParcelStore_SetAddress None n a t = (err, t')"
  shows "err = None \<and> length t' = length t \<and>
         (\<forall>i < length t.
            t' ! i = (if Number (t ! i) = n \<and> Status (t ! i) = ParcelStatusRegistered
                      then (t ! i)\<lparr>Address := a\<rparr> else t ! i)) \<and>
         ((\<forall>r \<in> set t. Number r = n \<longrightarrow> Status r \<noteq> ParcelStatusRegistered) \<longrightarrow> t' = t)"
proof -
  let ?f = "\<lambda>r. if Number r = n \<and> Status r = ParcelStatusRegistered then r\<lparr>Address := a\<rparr> else r"
  from assms have e: "err = None" and t': "t' = map ?f t"
    by (auto simp: ParcelStore_SetAddress_def exec_update_address_def)
  have "t' = t" if "\<forall>r \<in> set t. Number r = n \<longrightarrow> Status r \<noteq> ParcelStatusRegistered"
    unfolding t' using that by (intro map_unchanged) auto
  then show ?thesis using e by (simp add: t')
qed

theorem set_address_guarded_witness:
  "ParcelStore_SetAddress None 2 ''E'' sample_table =
     (None, [sample_sent, sample_registered\<lparr>Address := ''E''\<rparr>, sample_delivered]) \<and>
   ParcelStore_SetAddress None 1 ''E'' sample_table = (None, sample_table)"
proof -
  have a2: "ParcelStore_SetAddress None 2 ''E'' sample_table =
     (None, [sample_sent, sample_registered\<lparr>Address := ''E''\<rparr>, sample_delivered])"
    by (simp add: sample_table_def sample_sent_def sample_registered_def sample_delivered_def sample_lost_def ParcelStore_Add_def exec_insert_def LastInsertId_def next_rowid_def ParcelStore_Get_def query_row_by_number_def ParcelStore_Delete_def exec_delete_def ParcelStore_SetAddress_def exec_update_address_def ParcelStore_SetStatus_def exec_update_status_def ParcelStatusRegistered_def ParcelStatusSent_def ParcelStatusDelivered_def zero_Parcel_def store_inv_def)
  have a1: "ParcelStore_SetAddress None 1 ''E'' sample_table =
     (None, snd (ParcelStore_SetAddress None 1 ''E'' sample_table))"
    by (simp add: sample_table_def sample_sent_def sample_registered_def sample_delivered_def sample_lost_def ParcelStore_Add_def exec_insert_def LastInsertId_def next_rowid_def ParcelStore_Get_def query_row_by_number_def ParcelStore_Delete_def exec_delete_def ParcelStore_SetAddress_def exec_update_address_def ParcelStore_SetStatus_def exec_update_status_def ParcelStatusRegistered_def ParcelStatusSent_def ParcelStatusDelivered_def zero_Parcel_def store_inv_def)
  have "snd (ParcelStore_SetAddress None 1 ''E'' sample_table) = sample_table"
    using set_address_guarded [OF a1]
    by (simp add: sample_table_def sample_sent_def sample_registered_def sample_delivered_def sample_lost_def ParcelStatusRegistered_def)
  then show ?thesis using a2 a1 by simp
qed

text \<open>
  C4. For the stored row with a given number, \<open>NextStatus\<close> returns no error; a
  registered row is then stored as sent and a sent row as delivered, with its other
  fields as they were, and for a delivered row the table is left as it was.
\<close>

theorem next_status_chain:
  assumes "ParcelStore_Get None n t = (r, None)"
    and "ParcelService_NextStatus None None n t = (err, t')"
  shows "err = None \<and>
         (Status r = ParcelStatusRegistered \<longrightarrow>
            ParcelStore_Get None n t' = (r\<lparr>Status := ParcelStatusSent\<rparr>, None)) \<and>
         (Status r = ParcelStatusSent \<longrightarrow>
            ParcelStore_Get None n t' = (r\<lparr>Status := ParcelStatusDelivered\<rparr>, None)) \<and>
         (Status r = ParcelStatusDelivered \<longrightarrow> t' = t)"
  using assms(2) get_after_set_status [OF assms(1)]
  by (auto simp: ParcelService_NextStatus_def assms(1) ParcelStatusRegistered_def
      ParcelStatusSent_def ParcelStatusDelivered_def split: if_splits)

theorem next_status_chain_witness:
  "ParcelService_NextStatus None None 2 sample_table =
     (None, [sample_sent, sample_registered\<lparr>Status := ''sent''\<rparr>, sample_delivered]) \<and>
   ParcelService_NextStatus None None 1 sample_table =
     (None, [sample_sent\<lparr>Status := ''delivered''\<rparr>, sample_registered, sample_delivered]) \<and>
   ParcelService_NextStatus None None 3 sample_table = (None, sample_table)"
proof -
  have get3: "ParcelStore_Get None 3 sample_table = (sample_delivered, None)"
    by (simp add: sample_table_def sample_sent_def sample_registered_def sample_delivered_def sample_lost_def ParcelStore_Add_def exec_insert_def LastInsertId_def next_rowid_def ParcelStore_Get_def query_row_by_number_def ParcelStore_Delete_def exec_delete_def ParcelStore_SetAddress_def exec_update_address_def ParcelStore_SetStatus_def exec_update_status_def ParcelStatusRegistered_def ParcelStatusSent_def ParcelStatusDelivered_def zero_Parcel_def store_inv_def)
  have n3: "ParcelService_NextStatus None None 3 sample_table =
     (None, snd (ParcelService_NextStatus None None 3 sample_table))"
    by (simp add: ParcelService_NextStatus_def sample_table_def sample_sent_def sample_registered_def sample_delivered_def sample_lost_def ParcelStore_Add_def exec_insert_def LastInsertId_def next_rowid_def ParcelStore_Get_def query_row_by_number_def ParcelStore_Delete_def exec_delete_def ParcelStore_SetAddress_def exec_update_address_def ParcelStore_SetStatus_def exec_update_status_def ParcelStatusRegistered_def ParcelStatusSent_def ParcelStatusDelivered_def zero_Parcel_def store_inv_def)
  have "snd (ParcelService_NextStatus None None 3 sample_table) = sample_table"
    using next_status_chain [OF get3 n3]
    by (simp add: sample_delivered_def ParcelStatusDelivered_def)
  moreover have "ParcelService_NextStatus None None 2 sample_table =
     (None, [sample_sent, sample_registered\<lparr>Status := ''sent''\<rparr>, sample_delivered])"
    by (simp add: ParcelService_NextStatus_def sample_table_def sample_sent_def sample_registered_def sample_delivered_def sample_lost_def ParcelStore_Add_def exec_insert_def LastInsertId_def next_rowid_def ParcelStore_Get_def query_row_by_number_def ParcelStore_Delete_def exec_delete_def ParcelStore_SetAddress_def exec_update_address_def ParcelStore_SetStatus_def exec_update_status_def ParcelStatusRegistered_def ParcelStatusSent_def ParcelStatusDelivered_def zero_Parcel_def store_inv_def)
  moreover have "ParcelService_NextStatus None None 1 sample_table =
     (None, [sample_sent\<lparr>Status := ''delivered''\<rparr>, sample_registered, sample_delivered])"
    by (simp add: ParcelService_NextStatus_def sample_table_def sample_sent_def sample_registered_def sample_delivered_def sample_lost_def ParcelStore_Add_def exec_insert_def LastInsertId_def next_rowid_def ParcelStore_Get_def query_row_by_number_def ParcelStore_Delete_def exec_delete_def ParcelStore_SetAddress_def exec_update_address_def ParcelStore_SetStatus_def exec_update_status_def ParcelStatusRegistered_def ParcelStatusSent_def ParcelStatusDelivered_def zero_Parcel_def store_inv_def)
  ultimately show ?thesis using n3 by simp
qed

text \<open>
  C5. After any sequence of calls of \<open>Register\<close>, \<open>NextStatus\<close>, \<open>ChangeAddress\<close>
  and \<open>Delete\<close> on the empty table, whatever the driver and the clock do during them,
  every stored status is registered, sent or delivered; and one more call leaves every
  row with the status it had, or moves it one step along the chain registered, sent,
  delivered, or is the registration of a new row. No call moves a row back, skips a
  stage or moves a delivered row.
\<close>

theorem service_calls_follow_chain:
  "statuses_known (after_calls cs []) \<and>
   chain_step (after_calls cs []) (after_call c (after_calls cs []))"
proof -
  have "store_inv []" "statuses_known []" by (simp_all add: store_inv_def statuses_known_def)
  then have "store_inv (after_calls cs []) \<and> statuses_known (after_calls cs [])"
    by (rule after_calls_keep)
  then show ?thesis using after_call_keeps by blast
qed

theorem service_calls_follow_chain_witness:
  "after_calls [CallRegister sample_clock None None 7 ''A'', CallNextStatus None None 1] [] =
     [\<lparr>Number = 1, Client = 7, Status = ''sent'', Address = ''A'',
        CreatedAt = ''2024-01-02T03:04:05Z''\<rparr>] \<and>
   after_call (CallNextStatus None None 1)
     [\<lparr>Number = 1, Client = 7, Status = ''sent'', Address = ''A'',
        CreatedAt = ''2024-01-02T03:04:05Z''\<rparr>] =
     [\<lparr>Number = 1, Client = 7, Status = ''delivered'', Address = ''A'',
        CreatedAt = ''2024-01-02T03:04:05Z''\<rparr>] \<and>
   chain_step
     [\<lparr>Number = 1, Client = 7, Status = ''sent'', Address = ''A'',
        CreatedAt = ''2024-01-02T03:04:05Z''\<rparr>]
     [\<lparr>Number = 1, Client = 7, Status = ''delivered'', Address = ''A'',
        CreatedAt = ''2024-01-02T03:04:05Z''\<rparr>]"
proof -
  have stamp: "Format_RFC3339 sample_clock = ''2024-01-02T03:04:05Z''"
    by code_simp
  have run: "after_calls [CallRegister sample_clock None None 7 ''A'', CallNextStatus None None 1] [] =
     [\<lparr>Number = 1, Client = 7, Status = ''sent'', Address = ''A'',
        CreatedAt = ''2024-01-02T03:04:05Z''\<rparr>]"
    by (simp add: ParcelService_Register_def ParcelService_NextStatus_def stamp ParcelStore_Add_def exec_insert_def LastInsertId_def next_rowid_def ParcelStore_Get_def query_row_by_number_def ParcelStore_Delete_def exec_delete_def ParcelStore_SetAddress_def exec_update_address_def ParcelStore_SetStatus_def exec_update_status_def ParcelStatusRegistered_def ParcelStatusSent_def ParcelStatusDelivered_def zero_Parcel_def store_inv_def)
  have step: "after_call (CallNextStatus None None 1)
     [\<lparr>Number = 1, Client = 7, Status = ''sent'', Address = ''A'',
        CreatedAt = ''2024-01-02T03:04:05Z''\<rparr>] =
     [\<lparr>Number = 1, Client = 7, Status = ''delivered'', Address = ''A'',
        CreatedAt = ''2024-01-02T03:04:05Z''\<rparr>]"
    by (simp add: ParcelService_NextStatus_def ParcelStore_Add_def exec_insert_def LastInsertId_def next_rowid_def ParcelStore_Get_def query_row_by_number_def ParcelStore_Delete_def exec_delete_def ParcelStore_SetAddress_def exec_update_address_def ParcelStore_SetStatus_def exec_update_status_def ParcelStatusRegistered_def ParcelStatusSent_def ParcelStatusDelivered_def zero_Parcel_def store_inv_def)
  show ?thesis
    using service_calls_follow_chain
      [of "[CallRegister sample_clock None None 7 ''A'', CallNextStatus None None 1]"
          "CallNextStatus None None 1"]
    unfolding run step using run step by simp
qed

text \<open>
  C6. \<open>SetStatus\<close> returns no error and keeps the number and the order of the rows;
  every row with the given number gets the given status, whatever the status it had and
  whatever the new one is, and keeps its other fields; every other row stays as it was.
  When no row has the number, the table is left as it was, again with no error.
\<close>

theorem set_status_unconditional:
  assumes "ParcelStore_SetStatus None n st t = (err, t')"
  shows "err = None \<and> length t' = length t \<and>
         (\<forall>i < length t.
            t' ! i = (if Number (t ! i) = n then (t ! i)\<lparr>Status := st\<rparr> else t ! i)) \<and>
         ((\<forall>r \<in> set t. Number r \<noteq> n) \<longrightarrow> t' = t)"
proof -
  let ?f = "\<lambda>r. if Number r = n then r\<lparr>Status := st\<rparr> else r"
  from assms have e: "err = None" and t': "t' = map ?f t"
    by (auto simp: ParcelStore_SetStatus_def exec_update_status_def)
  have "t' = t" if "\<forall>r \<in> set t. Number r \<noteq> n"
    unfolding t' using that by (intro map_unchanged) auto
  then show ?thesis using e by (simp add: t')
qed

theorem set_status_unconditional_witness:
  "ParcelStore_SetStatus None 3 ''registered'' sample_table =
     (None, [sample_sent, sample_registered, sample_delivered\<lparr>Status := ''registered''\<rparr>]) \<and>
   ParcelStore_SetStatus None 9 ''sent'' sample_table = (None, sample_table)"
proof -
  have s3: "ParcelStore_SetStatus None 3 ''registered'' sample_table =
     (None, [sample_sent, sample_registered, sample_delivered\<lparr>Status := ''registered''\<rparr>])"
    by (simp add: sample_table_def sample_sent_def sample_registered_def sample_delivered_def sample_lost_def ParcelStore_Add_def exec_insert_def LastInsertId_def next_rowid_def ParcelStore_Get_def query_row_by_number_def ParcelStore_Delete_def exec_delete_def ParcelStore_SetAddress_def exec_update_address_def ParcelStore_SetStatus_def exec_update_status_def ParcelStatusRegistered_def ParcelStatusSent_def ParcelStatusDelivered_def zero_Parcel_def store_inv_def)
  have s9: "ParcelStore_SetStatus None 9 ''sent'' sample_table =
     (None, snd (ParcelStore_SetStatus None 9 ''sent'' sample_table))"
    by (simp add: sample_table_def sample_sent_def sample_registered_def sample_delivered_def sample_lost_def ParcelStore_Add_def exec_insert_def LastInsertId_def next_rowid_def ParcelStore_Get_def query_row_by_number_def ParcelStore_Delete_def exec_delete_def ParcelStore_SetAddress_def exec_update_address_def ParcelStore_SetStatus_def exec_update_status_def ParcelStatusRegistered_def ParcelStatusSent_def ParcelStatusDelivered_def zero_Parcel_def store_inv_def)
  have "snd (ParcelStore_SetStatus None 9 ''sent'' sample_table) = sample_table"
    using set_status_unconditional [OF s9] by (simp add: sample_table_def sample_sent_def sample_registered_def sample_delivered_def sample_lost_def)
  then show ?thesis using s3 s9 by simp
qed

text \<open>
  C7. When the driver reports no failure, \<open>GetByClient\<close> returns no error and a list
  whose elements are exactly the stored rows with the given client, each once when the
  rows of the table differ; when no stored row has the client, the list is empty.
\<close>

theorem get_by_client_exact:
  assumes "ParcelStore_GetByClient None None None c t = (ps, err)"
  shows "err = None \<and> set ps = {r \<in> set t. Client r = c} \<and>
         (distinct t \<longrightarrow> distinct ps) \<and>
         ((\<forall>r \<in> set t. Client r \<noteq> c) \<longrightarrow> ps = [])"
proof -
  from assms have e: "err = None" and ps: "ps = filter (\<lambda>r. Client r = c) t"
    by (auto simp: ParcelStore_GetByClient_def query_by_client_def scan_rows_all)
  have "ps = []" if "\<forall>r \<in> set t. Client r \<noteq> c"
    using that by (simp add: ps filter_empty_conv)
  then show ?thesis using e by (auto simp: ps)
qed

theorem get_by_client_exact_witness:
  "ParcelStore_GetByClient None None None 7 sample_table =
     ([sample_sent, sample_registered], None) \<and>
   ParcelStore_GetByClient None None None 9 sample_table = ([], None)"
proof -
  have c7: "ParcelStore_GetByClient None None None 7 sample_table =
     ([sample_sent, sample_registered], None)"
    by (simp add: ParcelStore_GetByClient_def query_by_client_def sample_table_def sample_sent_def sample_registered_def sample_delivered_def sample_lost_def)
  have c9: "ParcelStore_GetByClient None None None 9 sample_table =
     (fst (ParcelStore_GetByClient None None None 9 sample_table), None)"
    by (simp add: ParcelStore_GetByClient_def query_by_client_def sample_table_def sample_sent_def sample_registered_def sample_delivered_def sample_lost_def)
  have "fst (ParcelStore_GetByClient None None None 9 sample_table) = []"
    using get_by_client_exact [OF c9] by (simp add: sample_table_def sample_sent_def sample_registered_def sample_delivered_def sample_lost_def)
  then show ?thesis using c7 c9 by simp
qed


end
